theory Spec2Isabelle
  imports Main
begin

section \<open>Strings as the scheduler uses them\<close>

text \<open>
  The scheduler of \<^verbatim>\<open>index.ts\<close> builds its cron pattern with
  \<^verbatim>\<open>String.prototype.replace\<close> called with a string pattern: only the first
  occurrence of the pattern is replaced, and the replacement text is expanded first
  (\<^verbatim>\<open>$$\<close>, \<^verbatim>\<open>$&\<close>, the text before and the text after the match).
  With a string pattern there are no capture groups, so a dollar sign followed by
  anything else stays as it is.
\<close>

fun startsWith :: "string \<Rightarrow> string \<Rightarrow> bool" where
  "startsWith [] s = True"
| "startsWith (p # ps) [] = False"
| "startsWith (p # ps) (c # cs) = (p = c \<and> startsWith ps cs)"

fun indexOf :: "string \<Rightarrow> string \<Rightarrow> nat option" where
  "indexOf pat [] = (if pat = [] then Some 0 else None)"
| "indexOf pat (c # cs) =
     (if startsWith pat (c # cs) then Some 0 else map_option Suc (indexOf pat cs))"

fun getSubstitution :: "string \<Rightarrow> string \<Rightarrow> nat \<Rightarrow> string \<Rightarrow> string" where
  "getSubstitution matched str pos [] = []"
| "getSubstitution matched str pos [c] = [c]"
| "getSubstitution matched str pos (c # d # r) =
     (if c = CHR ''$'' then
        (if d = CHR ''$'' then CHR ''$'' # getSubstitution matched str pos r
         else if d = CHR ''&'' then matched @ getSubstitution matched str pos r
         else if d = CHR 0x60 then take pos str @ getSubstitution matched str pos r
         else if d = CHR 0x27 then
           drop (pos + length matched) str @ getSubstitution matched str pos r
         else c # getSubstitution matched str pos (d # r))
      else c # getSubstitution matched str pos (d # r))"

definition replace :: "string \<Rightarrow> string \<Rightarrow> string \<Rightarrow> string" where
  "replace pat repl s =
     (case indexOf pat s of
        None \<Rightarrow> s
      | Some p \<Rightarrow> take p s @ getSubstitution pat s p repl @ drop (p + length pat) s)"

text \<open>\<^verbatim>\<open>Number.prototype.toString\<close> on a non-negative integer: decimal digits, no padding.\<close>

definition digit :: "nat \<Rightarrow> char" where
  "digit n = ''0123456789'' ! n"

fun toString :: "nat \<Rightarrow> string" where
  "toString n = (if n < 10 then [digit n] else toString (n div 10) @ [digit (n mod 10)])"

declare toString.simps [simp del]

text \<open>\<^verbatim>\<open>String.prototype.split\<close> on a one-character separator.\<close>

fun split :: "char \<Rightarrow> string \<Rightarrow> string list" where
  "split sep [] = [[]]"
| "split sep (c # cs) =
     (if c = sep then [] # split sep cs
      else (case split sep cs of [] \<Rightarrow> [[c]] | w # ws \<Rightarrow> (c # w) # ws))"

section \<open>The data model\<close>

text \<open>
  The entities of \<^verbatim>\<open>database.ts\<close> that the scheduler reads. The generated key
  \<^verbatim>\<open>id\<close> is \<open>msgId\<close> for a message and \<open>taskRowId\<close> for a task, and the column
  \<^verbatim>\<open>text\<close> is the field \<open>messageText\<close>. Day, hour and minute of a task are text
  columns; the administration panel offers the values below for them.
\<close>

record RecurringMessage =
  msgId :: nat
  channelId :: string
  messageText :: string
  sendAsEmbed :: bool
  embedColor :: "string option"

record RecurringMessageTask =
  taskRowId :: nat
  recurringMessageId :: nat
  dayOfWeek :: string
  utcTimeHour :: string
  utcTimeMinute :: string

definition dayOfWeek_availableValues :: "string list" where
  "dayOfWeek_availableValues =
     [''*'', ''SUN'', ''MON'', ''TUE'', ''WED'', ''THU'', ''FRI'', ''SAT'']"

definition utcTimeHour_availableValues :: "string list" where
  "utcTimeHour_availableValues = map toString [0..<24]"

definition utcTimeMinute_availableValues :: "string list" where
  "utcTimeMinute_availableValues = map toString [0..<60]"

definition offered :: "RecurringMessageTask \<Rightarrow> bool" where
  "offered t \<longleftrightarrow>
     dayOfWeek t \<in> set dayOfWeek_availableValues \<and>
     utcTimeHour t \<in> set utcTimeHour_availableValues \<and>
     utcTimeMinute t \<in> set utcTimeMinute_availableValues"

section \<open>The schedule compiler\<close>

definition cronTab :: string where
  "cronTab = ''0 {min} {hour} * * {day}''"

definition cronTabString :: "RecurringMessageTask \<Rightarrow> string" where
  "cronTabString task =
     replace ''{day}'' (dayOfWeek task)
       (replace ''{hour}'' (utcTimeHour task)
          (replace ''{min}'' (utcTimeMinute task) cronTab))"

section \<open>Cron jobs and the trigger callback\<close>

text \<open>
  \<^verbatim>\<open>CronJob.from\<close> belongs to the package \<^verbatim>\<open>cron\<close>: it throws when the pattern
  cannot be parsed, and otherwise returns a started job (\<^verbatim>\<open>start: true\<close>). Which
  patterns parse is a parameter \<open>valid\<close> of the model. A job object lives in a heap
  of objects; the list \<^verbatim>\<open>cronJobs\<close> refers to it by address, so that a job dropped
  from the list still exists and still fires unless it was stopped. The callback
  \<^verbatim>\<open>onTick\<close> closes over the loop variable \<^verbatim>\<open>task\<close>, which is the field
  \<open>task\<close> of the job.
\<close>

datatype error = TypeError | UnknownChannel | EmbedError | InvalidCronTime

datatype payload = PlainText string | Embed string "string option"

record CronJob =
  cronTime :: string
  task :: RecurringMessageTask
  running :: bool

record RecurringMessageTaskCronJob =
  cronJob :: nat
  taskId :: nat

definition findOne :: "RecurringMessage list \<Rightarrow> nat \<Rightarrow> RecurringMessage option" where
  "findOne table k = find (\<lambda>m. msgId m = k) table"

text \<open>
  The callback reads the message by the key held in the captured task. The non-null
  assertion on the result has no effect when the program runs: without a row the read
  of \<^verbatim>\<open>recurringMessage.channelId\<close> throws a TypeError. Fetching a channel that
  does not exist rejects. For an embed the argument of \<^verbatim>\<open>channel.send\<close> is built
  first, by \<^verbatim>\<open>new EmbedBuilder().setDescription(text).setColor(color)\<close>; the builder
  belongs to the package \<^verbatim>\<open>discord.js\<close> and throws for a description or a colour
  that it refuses, before anything is sent. Which descriptions and colours it accepts
  is the parameter \<open>builds\<close>. A plain text is handed to \<^verbatim>\<open>channel.send\<close> as it is.
\<close>

definition onTick ::
  "(string \<Rightarrow> string option \<Rightarrow> bool) \<Rightarrow> RecurringMessage list \<Rightarrow> string list \<Rightarrow>
   RecurringMessageTask \<Rightarrow> error + (string \<times> payload)" where
  "onTick builds table chans tsk =
     (case findOne table (recurringMessageId tsk) of
        None \<Rightarrow> Inl TypeError
      | Some recurringMessage \<Rightarrow>
          if channelId recurringMessage \<notin> set chans then Inl UnknownChannel
          else if sendAsEmbed recurringMessage then
            (if builds (messageText recurringMessage) (embedColor recurringMessage)
             then Inr (channelId recurringMessage,
                       Embed (messageText recurringMessage) (embedColor recurringMessage))
             else Inl EmbedError)
          else Inr (channelId recurringMessage, PlainText (messageText recurringMessage)))"

definition stop :: "nat \<Rightarrow> CronJob list \<Rightarrow> CronJob list" where
  "stop a h = (if a < length h then h[a := (h ! a)\<lparr>running := False\<rparr>] else h)"

definition stopAll :: "RecurringMessageTaskCronJob list \<Rightarrow> CronJob list \<Rightarrow> CronJob list" where
  "stopAll js h = fold (\<lambda>job. stop (cronJob job)) js h"

text \<open>
  The loop of \<^verbatim>\<open>syncCronJobs\<close> over the fetched tasks. It has no handler: a pattern
  that \<^verbatim>\<open>CronJob.from\<close> refuses ends the loop there, with the jobs pushed so far
  left in the list.
\<close>

fun scheduleAll ::
  "(string \<Rightarrow> bool) \<Rightarrow> RecurringMessageTask list \<Rightarrow>
   CronJob list \<times> RecurringMessageTaskCronJob list \<Rightarrow>
   (CronJob list \<times> RecurringMessageTaskCronJob list) \<times> error option" where
  "scheduleAll valid [] s = (s, None)"
| "scheduleAll valid (t # ts) (h, js) =
     (if valid (cronTabString t) then
        scheduleAll valid ts
          (h @ [\<lparr>cronTime = cronTabString t, task = t, running = True\<rparr>],
           js @ [\<lparr>cronJob = length h, taskId = recurringMessageId t\<rparr>])
      else ((h, js), Some InvalidCronTime))"

text \<open>The job object and the list entry that one pass of the loop builds for a task.\<close>

definition newJob :: "RecurringMessageTask \<Rightarrow> CronJob" where
  "newJob t = \<lparr>cronTime = cronTabString t, task = t, running = True\<rparr>"

definition newEntry :: "nat \<times> RecurringMessageTask \<Rightarrow> RecurringMessageTaskCronJob" where
  "newEntry p = \<lparr>cronJob = fst p, taskId = recurringMessageId (snd p)\<rparr>"

text \<open>
  Modelled from the spec: the parser of the package \<^verbatim>\<open>cron\<close> is not part of the
  sources. This is one instance of \<open>valid\<close>, used for the concrete runs only: the
  patterns that the data model describes (second 0, a minute, an hour, any day of the
  month, any month, a day of the week), each value one that the panel offers.
\<close>

definition representable :: "string \<Rightarrow> bool" where
  "representable s =
     (case split CHR '' '' s of
        [sec, mi, h, dayOfMonth, month, d] \<Rightarrow>
          sec = ''0'' \<and> mi \<in> set utcTimeMinute_availableValues \<and>
          h \<in> set utcTimeHour_availableValues \<and> dayOfMonth = ''*'' \<and> month = ''*'' \<and>
          d \<in> set dayOfWeek_availableValues
      | _ \<Rightarrow> False)"

text \<open>
  Modelled from the spec: the embed builder of \<^verbatim>\<open>discord.js\<close> is not part of the
  sources. This is one instance of \<open>builds\<close>, used for the concrete runs only: a
  description of 1 to 4096 characters, and no colour or a colour written as \<open>#\<close> and six
  hexadecimal digits, as the default of the column is.
\<close>

definition hexDigit :: "char \<Rightarrow> bool" where
  "hexDigit c \<longleftrightarrow> c \<in> set ''0123456789abcdefABCDEF''"

definition buildable :: "string \<Rightarrow> string option \<Rightarrow> bool" where
  "buildable description color \<longleftrightarrow>
     1 \<le> length description \<and> length description \<le> 4096 \<and>
     (case color of
        None \<Rightarrow> True
      | Some c \<Rightarrow> length c = 7 \<and> hd c = CHR ''#'' \<and> list_all hexDigit (tl c))"

section \<open>The event loop\<close>

text \<open>
  \<^verbatim>\<open>syncCronJobs\<close> is an async function with two awaits, so it runs as three
  synchronous segments: the call (which starts the two-second timer), the segment after
  the timer (stop every listed job, empty the list, send the query), and the segment
  after the query returns (the loop). Between segments anything else may run: another
  invocation, a trigger, a change of the tables. A world is the state all of them
  share; an event is one synchronous segment or one change from outside. Saving or
  removing a task through the repository runs the entity's hook, which calls
  \<^verbatim>\<open>syncCronJobs\<close>. The tables keep the foreign key from a task to its message.
  A trigger is one event: the awaits of the callback (the read of the message, the
  fetch of the channel) are taken together, the read being made when the job fires.
  Time is a counter of milliseconds that only \<open>Advance\<close> moves; a timer may run late,
  never early. Console output is not modelled.
\<close>

datatype pc = Sleeping | AwaitingFind | FindResolved | Finished | Rejected error

record invocation =
  pc :: pc
  calledAt :: nat
  readAt :: "nat option"
  activeRecurringMessageTask :: "RecurringMessageTask list"

record world =
  now :: nat
  tasks :: "RecurringMessageTask list"
  messages :: "RecurringMessage list"
  channels :: "string list"
  heap :: "CronJob list"
  cronJobs :: "RecurringMessageTaskCronJob list"
  procs :: "invocation list"
  outbox :: "(string \<times> payload) list"
  rejections :: "error list"

datatype event =
    Advance nat
  | Call
  | Wake nat
  | DbRead nat
  | Resume nat
  | Fire nat
  | SaveTask RecurringMessageTask
  | RemoveTask nat
  | SaveMessage RecurringMessage
  | RemoveMessage nat

definition sleep_ms :: nat where
  "sleep_ms = 2000"

definition syncCronJobs_call :: "world \<Rightarrow> world" where
  "syncCronJobs_call w =
     w\<lparr>procs := procs w @
        [\<lparr>pc = Sleeping, calledAt = now w, readAt = None, activeRecurringMessageTask = []\<rparr>]\<rparr>"

definition syncCronJobs_afterSleep :: "nat \<Rightarrow> world \<Rightarrow> world" where
  "syncCronJobs_afterSleep i w =
     w\<lparr>heap := stopAll (cronJobs w) (heap w),
       cronJobs := [],
       procs := (procs w)[i := (procs w ! i)\<lparr>pc := AwaitingFind\<rparr>]\<rparr>"

definition find_resolves :: "nat \<Rightarrow> world \<Rightarrow> world" where
  "find_resolves i w =
     w\<lparr>procs := (procs w)[i := (procs w ! i)
        \<lparr>pc := FindResolved, readAt := Some (now w), activeRecurringMessageTask := tasks w\<rparr>]\<rparr>"

definition syncCronJobs_afterFind :: "(string \<Rightarrow> bool) \<Rightarrow> nat \<Rightarrow> world \<Rightarrow> world" where
  "syncCronJobs_afterFind valid i w =
     (case scheduleAll valid (activeRecurringMessageTask (procs w ! i)) (heap w, cronJobs w) of
        ((h, js), r) \<Rightarrow>
          w\<lparr>heap := h, cronJobs := js,
            procs := (procs w)[i := (procs w ! i)
              \<lparr>pc := (case r of None \<Rightarrow> Finished | Some e \<Rightarrow> Rejected e)\<rparr>],
            rejections := (case r of None \<Rightarrow> rejections w | Some e \<Rightarrow> rejections w @ [e])\<rparr>)"

definition fire :: "(string \<Rightarrow> string option \<Rightarrow> bool) \<Rightarrow> nat \<Rightarrow> world \<Rightarrow> world" where
  "fire builds a w =
     (case onTick builds (messages w) (channels w) (task (heap w ! a)) of
        Inl e \<Rightarrow> w\<lparr>rejections := rejections w @ [e]\<rparr>
      | Inr sent \<Rightarrow> w\<lparr>outbox := outbox w @ [sent]\<rparr>)"

definition saveTask :: "RecurringMessageTask \<Rightarrow> RecurringMessageTask list \<Rightarrow> RecurringMessageTask list" where
  "saveTask t table =
     (if taskRowId t \<in> set (map taskRowId table)
      then map (\<lambda>r. if taskRowId r = taskRowId t then t else r) table
      else table @ [t])"

definition saveMessage :: "RecurringMessage \<Rightarrow> RecurringMessage list \<Rightarrow> RecurringMessage list" where
  "saveMessage m table =
     (if msgId m \<in> set (map msgId table)
      then map (\<lambda>r. if msgId r = msgId m then m else r) table
      else table @ [m])"

fun step ::
  "(string \<Rightarrow> bool) \<Rightarrow> (string \<Rightarrow> string option \<Rightarrow> bool) \<Rightarrow> event \<Rightarrow> world \<Rightarrow> world option" where
  "step valid builds (Advance d) w = Some (w\<lparr>now := now w + d\<rparr>)"
| "step valid builds Call w = Some (syncCronJobs_call w)"
| "step valid builds (Wake i) w =
     (if i < length (procs w) \<and> pc (procs w ! i) = Sleeping \<and>
         calledAt (procs w ! i) + sleep_ms \<le> now w
      then Some (syncCronJobs_afterSleep i w) else None)"
| "step valid builds (DbRead i) w =
     (if i < length (procs w) \<and> pc (procs w ! i) = AwaitingFind
      then Some (find_resolves i w) else None)"
| "step valid builds (Resume i) w =
     (if i < length (procs w) \<and> pc (procs w ! i) = FindResolved
      then Some (syncCronJobs_afterFind valid i w) else None)"
| "step valid builds (Fire a) w =
     (if a < length (heap w) \<and> running (heap w ! a) then Some (fire builds a w) else None)"
| "step valid builds (SaveTask t) w =
     (if recurringMessageId t \<in> set (map msgId (messages w))
      then Some (syncCronJobs_call (w\<lparr>tasks := saveTask t (tasks w)\<rparr>)) else None)"
| "step valid builds (RemoveTask k) w =
     (if k \<in> set (map taskRowId (tasks w))
      then Some (syncCronJobs_call (w\<lparr>tasks := filter (\<lambda>r. taskRowId r \<noteq> k) (tasks w)\<rparr>))
      else None)"
| "step valid builds (SaveMessage m) w = Some (w\<lparr>messages := saveMessage m (messages w)\<rparr>)"
| "step valid builds (RemoveMessage k) w =
     (if k \<in> set (map recurringMessageId (tasks w)) then None
      else Some (w\<lparr>messages := filter (\<lambda>r. msgId r \<noteq> k) (messages w)\<rparr>))"

fun run ::
  "(string \<Rightarrow> bool) \<Rightarrow> (string \<Rightarrow> string option \<Rightarrow> bool) \<Rightarrow> event list \<Rightarrow> world \<Rightarrow>
   world option" where
  "run valid builds [] w = Some w"
| "run valid builds (e # es) w =
     (case step valid builds e w of None \<Rightarrow> None | Some w' \<Rightarrow> run valid builds es w')"

section \<open>Guild reconciliation\<close>

text \<open>
  \<^verbatim>\<open>syncServers\<close> exists in two revisions. Both read the guild cache of the client
  (a collection keyed by guild id, here the list of its entries) and the stored server
  rows, and send writes to the storage. The revision with the scheduler only inserts;
  the earlier one also deletes the rows of guilds that are gone, with their keywords
  and emojis, and updates the name of every row that stays. The model returns the
  writes in the order in which they are sent; \<open>commit\<close> is what the storage does with
  one of them (the server id is unique, the name is not nullable).
\<close>

record Server =
  serverId :: string
  name :: string

record Keyword =
  keywordServerId :: string
  keywordChannelId :: string
  keywordText :: string

record WhitelistedEmoji =
  emojiServerId :: string
  emojiUnicodeOrId :: string

record storage =
  servers :: "Server list"
  keywordRows :: "Keyword list"
  whitelistedEmojis :: "WhitelistedEmoji list"

datatype dbWrite =
    InsertServer string "string option"
  | UpdateServer string "string option"
  | DeleteServer string
  | DeleteKeyword string
  | DeleteWhitelistedEmoji string

definition newlyCreatedServerIds :: "(string \<times> string) list \<Rightarrow> Server list \<Rightarrow> string list" where
  "newlyCreatedServerIds cache storedServers =
     filter (\<lambda>id. id \<notin> set (map serverId storedServers)) (map fst cache)"

definition syncServers :: "(string \<times> string) list \<Rightarrow> Server list \<Rightarrow> dbWrite list" where
  "syncServers cache storedServers =
     map (\<lambda>id. InsertServer id (map_of cache id)) (newlyCreatedServerIds cache storedServers)"

text \<open>The body of the loop of the earlier revision over the stored rows.\<close>

definition reconcile_row :: "(string \<times> string) list \<Rightarrow> Server \<Rightarrow> dbWrite list" where
  "reconcile_row cache server =
     (if serverId server \<notin> set (map fst cache)
      then [DeleteKeyword (serverId server), DeleteWhitelistedEmoji (serverId server),
            DeleteServer (serverId server)]
      else [UpdateServer (serverId server) (map_of cache (serverId server))])"

definition syncServers_earlier :: "(string \<times> string) list \<Rightarrow> Server list \<Rightarrow> dbWrite list" where
  "syncServers_earlier cache storedServers =
     concat (map (reconcile_row cache) storedServers)
     @ map (\<lambda>id. InsertServer id (map_of cache id)) (newlyCreatedServerIds cache storedServers)"

fun commit :: "dbWrite \<Rightarrow> storage \<Rightarrow> storage" where
  "commit (InsertServer sid None) st = st"
| "commit (InsertServer sid (Some n)) st =
     (if sid \<in> set (map serverId (servers st)) then st
      else st\<lparr>servers := servers st @ [\<lparr>serverId = sid, name = n\<rparr>]\<rparr>)"
| "commit (UpdateServer sid None) st = st"
| "commit (UpdateServer sid (Some n)) st =
     st\<lparr>servers := map (\<lambda>r. if serverId r = sid then r\<lparr>name := n\<rparr> else r) (servers st)\<rparr>"
| "commit (DeleteServer sid) st = st\<lparr>servers := filter (\<lambda>r. serverId r \<noteq> sid) (servers st)\<rparr>"
| "commit (DeleteKeyword sid) st =
     st\<lparr>keywordRows := filter (\<lambda>r. keywordServerId r \<noteq> sid) (keywordRows st)\<rparr>"
| "commit (DeleteWhitelistedEmoji sid) st =
     st\<lparr>whitelistedEmojis := filter (\<lambda>r. emojiServerId r \<noteq> sid) (whitelistedEmojis st)\<rparr>"

definition commitAll :: "dbWrite list \<Rightarrow> storage \<Rightarrow> storage" where
  "commitAll ws st = fold commit ws st"

section \<open>Invariants and concrete scenarios\<close>

text \<open>
  Two facts that hold of every world reached from one without invocations: the list
  \<^verbatim>\<open>cronJobs\<close> refers to existing job objects, and an invocation that waits for or
  has its query result was called at least \<open>sleep_ms\<close> earlier.
\<close>

definition registry_ok :: "world \<Rightarrow> bool" where
  "registry_ok w \<longleftrightarrow> (\<forall>j \<in> set (cronJobs w). cronJob j < length (heap w))"



text \<open>The events that run the loop of some invocation, and so push jobs onto the list.\<close>

definition installs :: "event \<Rightarrow> bool" where
  "installs e = (case e of Resume i \<Rightarrow> True | _ \<Rightarrow> False)"


definition standup_message :: RecurringMessage where
  "standup_message =
     \<lparr>msgId = 5, channelId = ''general'', messageText = ''Standup'', sendAsEmbed = False,
      embedColor = Some ''#f7981d''\<rparr>"

definition standup_task :: RecurringMessageTask where
  "standup_task =
     \<lparr>taskRowId = 1, recurringMessageId = 5, dayOfWeek = ''MON'', utcTimeHour = ''9'',
      utcTimeMinute = ''0''\<rparr>"

definition malformed_task :: RecurringMessageTask where
  "malformed_task =
     \<lparr>taskRowId = 2, recurringMessageId = 5, dayOfWeek = ''MON'', utcTimeHour = ''99'',
      utcTimeMinute = ''0''\<rparr>"

definition retro_task :: RecurringMessageTask where
  "retro_task =
     \<lparr>taskRowId = 3, recurringMessageId = 5, dayOfWeek = ''FRI'', utcTimeHour = ''16'',
      utcTimeMinute = ''30''\<rparr>"

definition startup :: "RecurringMessageTask list \<Rightarrow> world" where
  "startup table =
     \<lparr>now = 0, tasks = table, messages = [standup_message], channels = [''general''],
      heap = [], cronJobs = [], procs = [], outbox = [], rejections = []\<rparr>"

text \<open>What can be seen of a world: the tasks whose jobs the list holds, and the rest.\<close>

definition scheduled_tasks :: "world \<Rightarrow> RecurringMessageTask list" where
  "scheduled_tasks w = map (\<lambda>j. task (heap w ! cronJob j)) (cronJobs w)"

definition scheduled_rows :: "world \<Rightarrow> nat list" where
  "scheduled_rows w = map taskRowId (scheduled_tasks w)"

definition snapshot :: "world \<Rightarrow> nat list \<times> bool list \<times> nat list \<times> pc list" where
  "snapshot w = (scheduled_rows w, map running (heap w), map taskRowId (tasks w), map pc (procs w))"

definition dispatched :: "world \<Rightarrow> (string \<times> payload) list \<times> error list" where
  "dispatched w = (outbox w, rejections w)"

definition one_pass :: "nat \<Rightarrow> event list" where
  "one_pass i = [Call, Advance 2000, Wake i, DbRead i, Resume i]"

text \<open>The world that one pass over the table with the stand-up task alone leaves behind.\<close>

definition installed :: world where
  "installed =
     \<lparr>now = 2000, tasks = [standup_task], messages = [standup_message],
      channels = [''general''],
      heap = [\<lparr>cronTime = ''0 0 9 * * MON'', task = standup_task, running = True\<rparr>],
      cronJobs = [\<lparr>cronJob = 0, taskId = 5\<rparr>],
      procs = [\<lparr>pc = Finished, calledAt = 0, readAt = Some 2000,
                activeRecurringMessageTask = [standup_task]\<rparr>],
      outbox = [], rejections = []\<rparr>"

text \<open>The same world two seconds after \<^verbatim>\<open>syncCronJobs\<close> was called again.\<close>

definition second_call :: world where
  "second_call =
     installed\<lparr>now := 4000, procs := procs installed @
       [\<lparr>pc = Sleeping, calledAt = 2000, readAt = None, activeRecurringMessageTask = []\<rparr>]\<rparr>"

text \<open>
  The second invocation woken up, and then, five milliseconds later, with the answer
  of the storage.
\<close>

definition woken :: world where
  "woken = syncCronJobs_afterSleep 1 second_call"

definition answered :: world where
  "answered = (find_resolves 1 woken)\<lparr>now := 4005\<rparr>"



text \<open>Two saves through the panel, one after the other, and the two passes that their hooks start.\<close>

definition two_saves :: "event list" where
  "two_saves =
     [SaveTask standup_task, SaveTask retro_task, Advance 2000,
      Wake 0, Wake 1, DbRead 0, DbRead 1, Resume 0, Resume 1]"


text \<open>
  For the earlier revision: a stored row is current when it carries the name that the
  cache has for its guild; \<open>keep\<close> and \<open>relabel\<close> say what the loop over the rows
  \<open>rs\<close> does to a stored row (deletes it when its guild is gone, renames it otherwise).
\<close>

definition current :: "(string \<times> string) list \<Rightarrow> Server \<Rightarrow> bool" where
  "current cache r \<longleftrightarrow> map_of cache (serverId r) = Some (name r)"

definition keep :: "(string \<times> string) list \<Rightarrow> Server list \<Rightarrow> Server \<Rightarrow> bool" where
  "keep cache rs r \<longleftrightarrow>
     (serverId r \<in> set (map serverId rs) \<longrightarrow> serverId r \<in> set (map fst cache))"

definition relabel :: "(string \<times> string) list \<Rightarrow> Server list \<Rightarrow> Server \<Rightarrow> Server" where
  "relabel cache rs r =
     (if serverId r \<in> set (map serverId rs) then r\<lparr>name := the (map_of cache (serverId r))\<rparr> else r)"

text \<open>A guild cache with two guilds, and a storage that knows one of them under an old name
  and one guild that the client has left.\<close>

definition guild_cache :: "(string \<times> string) list" where
  "guild_cache = [(''A'', ''alpha''), (''B'', ''beta'')]"

definition stored_example :: storage where
  "stored_example =
     \<lparr>servers = [\<lparr>serverId = ''A'', name = ''old alpha''\<rparr>, \<lparr>serverId = ''C'', name = ''gamma''\<rparr>],
      keywordRows = [\<lparr>keywordServerId = ''C'', keywordChannelId = ''42'', keywordText = ''WTS''\<rparr>],
      whitelistedEmojis = []\<rparr>"

section \<open>Facts about the string functions\<close>

lemma getSubstitution_plain:
  "CHR ''$'' \<notin> set r \<Longrightarrow> getSubstitution matched str pos r = r"
  by (induction matched str pos r rule: getSubstitution.induct) auto

lemma startsWith_append: "startsWith p (p @ r)"
  by (induction p) auto

lemma indexOf_brace:
  "CHR ''{'' \<notin> set xs \<Longrightarrow> indexOf (CHR ''{'' # p) (xs @ CHR ''{'' # p @ r) = Some (length xs)"
  by (induction xs) (auto simp: startsWith_append)

lemma replace_first_brace:
  assumes "CHR ''{'' \<notin> set xs" and "CHR ''$'' \<notin> set v"
  shows "replace (CHR ''{'' # p) v (xs @ CHR ''{'' # p @ r) = xs @ v @ r"
  using assms by (simp add: replace_def indexOf_brace getSubstitution_plain)

lemma digit_set: "n < 10 \<Longrightarrow> digit n \<in> set ''0123456789''"
  unfolding digit_def by (rule nth_mem) simp

lemma toString_digits: "set (toString n) \<subseteq> set ''0123456789''"
proof (induction n rule: toString.induct)
  case (1 n)
  show ?case
  proof (cases "n < 10")
    case True
    then show ?thesis using digit_set [of n] by (subst toString.simps) simp
  next
    case False
    then show ?thesis using 1 digit_set [of "n mod 10"] by (subst toString.simps) simp
  qed
qed

lemma toString_plain: "CHR ''$'' \<notin> set (toString n)" "CHR ''{'' \<notin> set (toString n)" "CHR '' '' \<notin> set (toString n)"
  using toString_digits [of n] by auto

lemma day_plain: "d \<in> set dayOfWeek_availableValues \<Longrightarrow> CHR ''$'' \<notin> set d \<and> CHR ''{'' \<notin> set d \<and> CHR '' '' \<notin> set d"
  by (auto simp: dayOfWeek_availableValues_def)

lemma cronTabString_plain:
  assumes "CHR ''$'' \<notin> set (utcTimeMinute t)" "CHR ''{'' \<notin> set (utcTimeMinute t)"
    "CHR ''$'' \<notin> set (utcTimeHour t)" "CHR ''{'' \<notin> set (utcTimeHour t)"
    "CHR ''$'' \<notin> set (dayOfWeek t)"
  shows "cronTabString t = ''0 '' @ utcTimeMinute t @ '' '' @ utcTimeHour t @ '' * * '' @ dayOfWeek t"
proof -
  have 1: "replace ''{min}'' (utcTimeMinute t) cronTab = ''0 '' @ utcTimeMinute t @ '' {hour} * * {day}''"
    using replace_first_brace [of "''0 ''" "utcTimeMinute t" "''min}''" "'' {hour} * * {day}''"] assms
    by (simp add: cronTab_def)
  have 2: "replace ''{hour}'' (utcTimeHour t) (''0 '' @ utcTimeMinute t @ '' {hour} * * {day}'')
      = ''0 '' @ utcTimeMinute t @ '' '' @ utcTimeHour t @ '' * * {day}''"
    using replace_first_brace [of "''0 '' @ utcTimeMinute t @ '' ''" "utcTimeHour t" "''hour}''" "'' * * {day}''"] assms
    by simp
  have 3: "replace ''{day}'' (dayOfWeek t) (''0 '' @ utcTimeMinute t @ '' '' @ utcTimeHour t @ '' * * {day}'')
      = ''0 '' @ utcTimeMinute t @ '' '' @ utcTimeHour t @ '' * * '' @ dayOfWeek t"
    using replace_first_brace [of "''0 '' @ utcTimeMinute t @ '' '' @ utcTimeHour t @ '' * * ''" "dayOfWeek t" "''day}''" "[]"] assms
    by simp
  show ?thesis unfolding cronTabString_def 1 2 3 ..
qed

lemma offered_plain:
  assumes "offered t"
  shows "CHR ''$'' \<notin> set (utcTimeMinute t)" "CHR ''{'' \<notin> set (utcTimeMinute t)" "CHR '' '' \<notin> set (utcTimeMinute t)"
    "CHR ''$'' \<notin> set (utcTimeHour t)" "CHR ''{'' \<notin> set (utcTimeHour t)" "CHR '' '' \<notin> set (utcTimeHour t)"
    "CHR ''$'' \<notin> set (dayOfWeek t)" "CHR ''{'' \<notin> set (dayOfWeek t)"  "CHR '' '' \<notin> set (dayOfWeek t)"
  using assms toString_plain day_plain
  by (auto simp: offered_def utcTimeHour_availableValues_def utcTimeMinute_availableValues_def simp del: upt_Suc)

lemma split_nonempty: "split sep s \<noteq> []"
  by (induction s) (auto split: list.splits)

lemma split_no_sep: "sep \<notin> set xs \<Longrightarrow> split sep xs = [xs]"
  by (induction xs) auto

lemma split_field: "sep \<notin> set xs \<Longrightarrow> split sep (xs @ sep # r) = xs # split sep r"
  by (induction xs) (auto split: list.splits)

lemma toString_length:
  assumes "n < 100"
  shows "length (toString n) = (if n < 10 then 1 else 2)"
proof (cases "n < 10")
  case True
  then show ?thesis by (subst toString.simps) simp
next
  case False
  have "n div 10 < 10" using assms by arith
  then have "toString (n div 10) = [digit (n div 10)]" by (subst toString.simps) simp
  then show ?thesis using False by (subst toString.simps) simp
qed

section \<open>Facts about jobs, the loop and the event loop\<close>

lemma stop_length: "length (stop a h) = length h"
  by (simp add: stop_def)

lemma stopAll_length: "length (stopAll js h) = length h"
  unfolding stopAll_def by (induction js arbitrary: h) (simp_all add: stop_length)

lemma stop_stays: "\<not> running (h ! b) \<Longrightarrow> \<not> running (stop a h ! b)"
  by (cases "a = b") (simp_all add: stop_def)

lemma stop_stops: "a < length h \<Longrightarrow> \<not> running (stop a h ! a)"
  by (simp add: stop_def)

lemma stop_task: "task (stop a h ! b) = task (h ! b)" "cronTime (stop a h ! b) = cronTime (h ! b)"
  by (cases "a = b"; simp add: stop_def)+

lemma stopAll_stays: "\<not> running (h ! b) \<Longrightarrow> \<not> running (stopAll js h ! b)"
  unfolding stopAll_def by (induction js arbitrary: h) (simp_all add: stop_stays)

lemma stopAll_task: "task (stopAll js h ! b) = task (h ! b)"
  unfolding stopAll_def by (induction js arbitrary: h) (simp_all add: stop_task)

lemma stopAll_stops:
  "j \<in> set js \<Longrightarrow> cronJob j < length h \<Longrightarrow> \<not> running (stopAll js h ! cronJob j)"
proof (induction js arbitrary: h)
  case Nil
  then show ?case by simp
next
  case (Cons x xs)
  show ?case
  proof (cases "j = x")
    case True
    have "\<not> running (stop (cronJob x) h ! cronJob x)"
      using Cons.prems True by (simp add: stop_stops)
    then have "\<not> running (stopAll xs (stop (cronJob x) h) ! cronJob x)"
      by (rule stopAll_stays)
    then show ?thesis using True by (simp add: stopAll_def)
  next
    case False
    then have "j \<in> set xs" using Cons.prems by simp
    moreover have "cronJob j < length (stop (cronJob x) h)"
      using Cons.prems by (simp add: stop_length)
    ultimately have "\<not> running (stopAll xs (stop (cronJob x) h) ! cronJob j)"
      by (rule Cons.IH)
    then show ?thesis by (simp add: stopAll_def)
  qed
qed

lemma scheduleAll_closed:
  "scheduleAll valid ts (h, js) =
     ((h @ map newJob (takeWhile (\<lambda>t. valid (cronTabString t)) ts),
       js @ map newEntry (enumerate (length h) (takeWhile (\<lambda>t. valid (cronTabString t)) ts))),
      (if list_all (\<lambda>t. valid (cronTabString t)) ts then None else Some InvalidCronTime))"
  by (induction ts arbitrary: h js) (simp_all add: newJob_def newEntry_def)

lemma syncCronJobs_afterFind_heap:
  "heap (syncCronJobs_afterFind valid i w) =
     heap w @ map newJob (takeWhile (\<lambda>t. valid (cronTabString t)) (activeRecurringMessageTask (procs w ! i)))"
  by (simp add: syncCronJobs_afterFind_def scheduleAll_closed)

lemma syncCronJobs_afterFind_cronJobs:
  "cronJobs (syncCronJobs_afterFind valid i w) =
     cronJobs w @ map newEntry (enumerate (length (heap w))
       (takeWhile (\<lambda>t. valid (cronTabString t)) (activeRecurringMessageTask (procs w ! i))))"
  by (simp add: syncCronJobs_afterFind_def scheduleAll_closed)


lemma syncCronJobs_afterFind_frame:
  "now (syncCronJobs_afterFind valid i w) = now w"
  "tasks (syncCronJobs_afterFind valid i w) = tasks w"
  "messages (syncCronJobs_afterFind valid i w) = messages w"
  "channels (syncCronJobs_afterFind valid i w) = channels w"
  "outbox (syncCronJobs_afterFind valid i w) = outbox w"
  by (simp_all add: syncCronJobs_afterFind_def split: prod.splits)

lemma fire_frame:
  "heap (fire builds a w) = heap w" "cronJobs (fire builds a w) = cronJobs w" "procs (fire builds a w) = procs w"
  "now (fire builds a w) = now w" "tasks (fire builds a w) = tasks w" "messages (fire builds a w) = messages w"
  by (simp_all add: fire_def split: sum.splits)

lemma step_heap:
  assumes "step valid builds e w = Some w'"
  shows "length (heap w) \<le> length (heap w')"
    and "b < length (heap w) \<Longrightarrow> task (heap w' ! b) = task (heap w ! b)"
    and "b < length (heap w) \<Longrightarrow> \<not> running (heap w ! b) \<Longrightarrow> \<not> running (heap w' ! b)"
  using assms
  by (cases e; auto simp: syncCronJobs_call_def syncCronJobs_afterSleep_def find_resolves_def
      syncCronJobs_afterFind_heap fire_frame stopAll_length stopAll_task stopAll_stays nth_append
      split: if_splits)+

lemma run_heap:
  assumes "run valid builds es w = Some w'"
  shows "length (heap w) \<le> length (heap w')"
    and "b < length (heap w) \<Longrightarrow> task (heap w' ! b) = task (heap w ! b)"
    and "b < length (heap w) \<Longrightarrow> \<not> running (heap w ! b) \<Longrightarrow> \<not> running (heap w' ! b)"
  using assms
proof (induction es arbitrary: w)
  case Nil
  { case 1 then show ?case by simp }
  { case 2 then show ?case by simp }
  { case 3 then show ?case by simp }
next
  case (Cons e es)
  { case 1
    then obtain w1 where s: "step valid builds e w = Some w1" and r: "run valid builds es w1 = Some w'"
      by (auto split: option.splits)
    show ?case using step_heap(1) [OF s] Cons.IH(1) [OF r] by simp }
  { case 2
    then obtain w1 where s: "step valid builds e w = Some w1" and r: "run valid builds es w1 = Some w'"
      by (auto split: option.splits)
    have "b < length (heap w1)" using step_heap(1) [OF s] 2 by simp
    then show ?case using step_heap(2) [OF s] Cons.IH(2) [OF _ r] 2 by simp }
  { case 3
    then obtain w1 where s: "step valid builds e w = Some w1" and r: "run valid builds es w1 = Some w'"
      by (auto split: option.splits)
    have "b < length (heap w1)" using step_heap(1) [OF s] 3 by simp
    then show ?case using step_heap(3) [OF s] Cons.IH(3) [OF _ _ r] 3 by simp }
qed


section \<open>Facts about the trigger callback and the scenarios\<close>



lemma fire_sends:
  assumes "findOne (messages w) (recurringMessageId (task (heap w ! a))) = Some m"
    and "channelId m \<in> set (channels w)"
    and "sendAsEmbed m \<longrightarrow> builds (messageText m) (embedColor m)"
  shows "fire builds a w = w\<lparr>outbox := outbox w @
     [(channelId m, if sendAsEmbed m then Embed (messageText m) (embedColor m)
                    else PlainText (messageText m))]\<rparr>"
  using assms by (simp add: fire_def onTick_def)


lemmas scenario_defs = startup_def one_pass_def standup_task_def standup_message_def
  malformed_task_def retro_task_def

lemmas eval_defs = syncCronJobs_call_def syncCronJobs_afterSleep_def find_resolves_def
  syncCronJobs_afterFind_def fire_def sleep_ms_def stopAll_def stop_def representable_def
  buildable_def hexDigit_def
  cronTabString_def cronTab_def replace_def onTick_def findOne_def saveTask_def saveMessage_def
  dayOfWeek_availableValues_def utcTimeHour_availableValues_def
  utcTimeMinute_availableValues_def toString.simps digit_def upt_rec [of _ "numeral _"]

lemma standup_offered: "offered standup_task"
  by (simp add: offered_def scenario_defs eval_defs)

lemma one_pass_installed:
  "run representable buildable (one_pass 0) (startup [standup_task]) = Some installed"
  by (simp add: installed_def scenario_defs eval_defs)

section \<open>The schedule compiler (claims C3 and C8)\<close>

text \<open>
  Claim C3. For every task definition whose day, hour and minute are values that the
  administration panel offers, the compiled pattern is the six fields
  \<open>0 minute hour * * day\<close>: second 0, any day of the month, any month, and minute, hour
  and day of the week taken from the definition. The task Monday, hour 9, minute 0
  compiles to \<open>0 0 9 * * MON\<close>, and when a running job for a task fires while the
  message it refers to has the text Standup, is not an embed and sits in a channel
  that can be fetched, exactly one plain-text send of Standup to that channel is
  dispatched.
\<close>

theorem schedule_compiler_six_fields:
  "(offered t \<longrightarrow>
      cronTabString t =
        ''0 '' @ utcTimeMinute t @ '' '' @ utcTimeHour t @ '' * * '' @ dayOfWeek t) \<and>
   (dayOfWeek t = ''MON'' \<and> utcTimeHour t = toString 9 \<and> utcTimeMinute t = toString 0 \<longrightarrow>
      cronTabString t = ''0 0 9 * * MON'') \<and>
   (a < length (heap w) \<and> running (heap w ! a) \<and> task (heap w ! a) = t \<and>
    findOne (messages w) (recurringMessageId t) = Some m \<and>
    messageText m = ''Standup'' \<and> \<not> sendAsEmbed m \<and> channelId m \<in> set (channels w) \<longrightarrow>
      step valid builds (Fire a) w =
        Some (w\<lparr>outbox := outbox w @ [(channelId m, PlainText ''Standup'')]\<rparr>))"
proof (intro conjI impI)
  assume "offered t"
  then show "cronTabString t =
      ''0 '' @ utcTimeMinute t @ '' '' @ utcTimeHour t @ '' * * '' @ dayOfWeek t"
    by (intro cronTabString_plain offered_plain)
next
  assume "dayOfWeek t = ''MON'' \<and> utcTimeHour t = toString 9 \<and> utcTimeMinute t = toString 0"
  then show "cronTabString t = ''0 0 9 * * MON''"
    by (simp add: cronTabString_def cronTab_def replace_def toString.simps digit_def)
next
  assume h: "a < length (heap w) \<and> running (heap w ! a) \<and> task (heap w ! a) = t \<and>
    findOne (messages w) (recurringMessageId t) = Some m \<and>
    messageText m = ''Standup'' \<and> \<not> sendAsEmbed m \<and> channelId m \<in> set (channels w)"
  then have "fire builds a w = w\<lparr>outbox := outbox w @ [(channelId m, PlainText ''Standup'')]\<rparr>"
    using fire_sends [where w = w and a = a and m = m and builds = builds] by simp
  then show "step valid builds (Fire a) w =
      Some (w\<lparr>outbox := outbox w @ [(channelId m, PlainText ''Standup'')]\<rparr>)"
    using h by simp
qed

text \<open>The scenario of claim C3, run on the world that holds the stand-up job.\<close>

theorem schedule_compiler_six_fields_witness:
  "offered standup_task \<and> cronTabString standup_task = ''0 0 9 * * MON'' \<and>
   step representable buildable (Fire 0) installed
     = Some (installed\<lparr>outbox := [(''general'', PlainText ''Standup'')]\<rparr>)"
proof -
  note inst = schedule_compiler_six_fields [of standup_task 0 installed standup_message representable
      buildable]
  have a: "dayOfWeek standup_task = ''MON'' \<and> utcTimeHour standup_task = toString 9 \<and>
      utcTimeMinute standup_task = toString 0"
    by (simp add: standup_task_def toString.simps digit_def)
  have b: "0 < length (heap installed) \<and> running (heap installed ! 0) \<and>
      task (heap installed ! 0) = standup_task \<and>
      findOne (messages installed) (recurringMessageId standup_task) = Some standup_message \<and>
      messageText standup_message = ''Standup'' \<and> \<not> sendAsEmbed standup_message \<and>
      channelId standup_message \<in> set (channels installed)"
    by (simp add: installed_def standup_task_def standup_message_def findOne_def)
  have c: "outbox installed @ [(channelId standup_message, PlainText ''Standup'')]
      = [(''general'', PlainText ''Standup'')]"
    by (simp add: installed_def standup_message_def)
  have "cronTabString standup_task = ''0 0 9 * * MON''"
    using inst a by blast
  moreover have "step representable buildable (Fire 0) installed
      = Some (installed\<lparr>outbox := outbox installed @
          [(channelId standup_message, PlainText ''Standup'')]\<rparr>)"
    using inst b by blast
  ultimately show ?thesis using standup_offered c by simp
qed

text \<open>
  Claim C8, as the code has it. The hour and the minute that reach the pattern are the
  plain decimal numerals that the panel stores (\<^verbatim>\<open>i.toString()\<close>): one digit below
  ten, two digits from ten on, never padded with a zero. The day field is the stored
  symbol, one of \<open>*\<close>, SUN, MON, TUE, WED, THU, FRI, SAT. Read back field by field, the
  pattern is second 0, that minute, that hour, two wildcards and that day.
\<close>

theorem cron_fields_unpadded:
  assumes "h < 24" and "m < 60" and "d \<in> set dayOfWeek_availableValues"
  shows "split CHR '' '' (cronTabString
           \<lparr>taskRowId = k, recurringMessageId = r, dayOfWeek = d, utcTimeHour = toString h,
            utcTimeMinute = toString m\<rparr>)
         = [''0'', toString m, toString h, ''*'', ''*'', d] \<and>
         length (toString m) = (if m < 10 then 1 else 2) \<and>
         length (toString h) = (if h < 10 then 1 else 2)"
proof -
  let ?t = "\<lparr>taskRowId = k, recurringMessageId = r, dayOfWeek = d, utcTimeHour = toString h,
            utcTimeMinute = toString m\<rparr>"
  have c: "cronTabString ?t = ''0 '' @ toString m @ '' '' @ toString h @ '' * * '' @ d"
    using cronTabString_plain [of ?t] toString_plain day_plain [OF assms(3)] by simp
  have s1: "split CHR '' '' (''0 '' @ toString m @ '' '' @ toString h @ '' * * '' @ d)
      = ''0'' # split CHR '' '' (toString m @ '' '' @ toString h @ '' * * '' @ d)"
    by simp
  have s2: "split CHR '' '' (toString m @ '' '' @ toString h @ '' * * '' @ d)
      = toString m # split CHR '' '' (toString h @ '' * * '' @ d)"
    using split_field [of "CHR '' ''" "toString m"] toString_plain(3) by simp
  have s3: "split CHR '' '' (toString h @ '' * * '' @ d) = toString h # split CHR '' '' (''* * '' @ d)"
    using split_field [of "CHR '' ''" "toString h"] toString_plain(3) by simp
  have s4: "split CHR '' '' (''* * '' @ d) = [''*'', ''*'', d]"
    using split_no_sep [of "CHR '' ''" d] day_plain [OF assms(3)] by simp
  have "length (toString m) = (if m < 10 then 1 else 2)"
    using assms(2) by (intro toString_length) simp
  moreover have "length (toString h) = (if h < 10 then 1 else 2)"
    using assms(1) by (intro toString_length) simp
  ultimately show ?thesis unfolding c s1 s2 s3 s4 by simp
qed

theorem cron_fields_unpadded_witness:
  "split CHR '' '' (cronTabString standup_task) = [''0'', ''0'', ''9'', ''*'', ''*'', ''MON'']"
  using cron_fields_unpadded [of 9 0 "''MON''" 1 5]
  by (simp add: standup_task_def dayOfWeek_availableValues_def toString.simps digit_def)

text \<open>
  Claim C8 as stated asks for two-digit, zero-padded hours and minutes. The stand-up
  task (hour 9, as the panel stores it) compiles to an hour field of one character.
\<close>

theorem zero_padding_counterexample:
  "offered standup_task \<and> utcTimeHour standup_task = toString 9 \<and>
   split CHR '' '' (cronTabString standup_task) ! 2 = ''9'' \<and>
   length (split CHR '' '' (cronTabString standup_task) ! 2) \<noteq> 2"
  using standup_offered
  by (simp add: standup_task_def cronTabString_def cronTab_def replace_def toString.simps digit_def)


section \<open>The trigger callback (claims C6 and C4)\<close>

lemma second_call_reached: "run representable buildable [Call, Advance 2000] installed = Some second_call"
  by (simp add: second_call_def installed_def eval_defs)




text \<open>
  Claim C4 says that a fire whose message no longer exists is a no-op that raises no
  error. In the code the result of \<^verbatim>\<open>findOne\<close> is used without a check, so the callback
  throws. The run: one pass installs the stand-up job; its task is removed, then its
  message (the foreign key allows that once the task is gone); the job, which the pass
  started by the removal has not stopped yet, fires. Nothing is sent, and the promise
  of the callback rejects with a TypeError.
\<close>

theorem fire_without_message_rejects:
  "map_option dispatched
     (run representable buildable (one_pass 0 @ [RemoveTask 1, RemoveMessage 5, Fire 0]) (startup [standup_task]))
   = Some ([], [TypeError])"
  by (simp add: dispatched_def scenario_defs eval_defs)

section \<open>Replacing a generation of jobs (claim C2)\<close>

lemma step_keeps_list_empty:
  assumes "cronJobs w = []" and "step valid builds e w = Some w'" and "\<not> installs e"
  shows "cronJobs w' = []"
  using assms
  by (cases e)
     (auto simp: installs_def syncCronJobs_call_def syncCronJobs_afterSleep_def find_resolves_def
        fire_frame split: if_splits)

lemma run_keeps_list_empty:
  "cronJobs w = [] \<Longrightarrow> run valid builds es w = Some w' \<Longrightarrow> \<not> list_ex installs es \<Longrightarrow>
   cronJobs w' = []"
proof (induction es arbitrary: w)
  case Nil
  then show ?case by simp
next
  case (Cons e es)
  from Cons.prems(2) obtain w1 where s: "step valid builds e w = Some w1"
    and r: "run valid builds es w1 = Some w'"
    by (auto split: option.splits)
  have "cronJobs w1 = []"
    using step_keeps_list_empty [OF Cons.prems(1) s] Cons.prems(3) by simp
  then show ?case using Cons.IH [OF _ r] Cons.prems(3) by simp
qed

text \<open>
  Claim C2, as the code has it. In every invocation of \<^verbatim>\<open>syncCronJobs\<close>, the segment
  that runs when the delay is over stops every job that the list holds at that moment
  and empties the list, before the query is sent and so before any job of the new
  generation exists: the segment creates no job, and the loop of this invocation
  cannot run until the query has returned. None of the stopped jobs is running at any
  later moment, whatever happens in between, so none of them fires again. There is no
  atomic replacement: right after that segment the list is empty while the invocation
  waits for the query, and it is seen empty by whatever runs then; it stays empty as
  long as no loop of any invocation has run.
\<close>

theorem old_generation_stopped_registry_emptied:
  assumes "registry_ok w" and "step valid builds (Wake i) w = Some w1"
    and "run valid builds es w1 = Some w2"
  shows "cronJobs w1 = [] \<and> length (heap w1) = length (heap w) \<and>
         pc (procs w1 ! i) = AwaitingFind \<and> step valid builds (Resume i) w1 = None \<and>
         (\<forall>j \<in> set (cronJobs w).
            \<not> running (heap w1 ! cronJob j) \<and> \<not> running (heap w2 ! cronJob j) \<and>
            step valid builds (Fire (cronJob j)) w2 = None) \<and>
         (\<not> list_ex installs es \<longrightarrow> cronJobs w2 = [])"
proof -
  have w1: "w1 = syncCronJobs_afterSleep i w" and i: "i < length (procs w)"
    using assms(2) by (auto split: if_splits)
  have e: "cronJobs w1 = []" and l: "length (heap w1) = length (heap w)"
    and p: "pc (procs w1 ! i) = AwaitingFind"
    using i by (simp_all add: w1 syncCronJobs_afterSleep_def stopAll_length)
  have "\<not> running (heap w1 ! cronJob j) \<and> \<not> running (heap w2 ! cronJob j) \<and>
      step valid builds (Fire (cronJob j)) w2 = None" if j: "j \<in> set (cronJobs w)" for j
  proof -
    have b: "cronJob j < length (heap w)" using assms(1) j by (simp add: registry_ok_def)
    then have s: "\<not> running (heap w1 ! cronJob j)"
      using stopAll_stops [OF j b] by (simp add: w1 syncCronJobs_afterSleep_def)
    have "\<not> running (heap w2 ! cronJob j)"
      using run_heap(3) [OF assms(3) _ s] b l by simp
    then show ?thesis using s by simp
  qed
  moreover have "step valid builds (Resume i) w1 = None" using p by simp
  moreover have "cronJobs w2 = []" if "\<not> list_ex installs es"
    using run_keeps_list_empty [OF e assms(3) that] .
  ultimately show ?thesis using e l p by blast
qed

text \<open>
  The second invocation wakes up in a world whose list holds the stand-up job; the
  storage answers and five milliseconds pass. The job is stopped and stays so, and the
  list is still empty.
\<close>

theorem old_generation_stopped_registry_emptied_witness:
  "registry_ok second_call \<and>
   step representable buildable (Wake 1) second_call = Some woken \<and>
   run representable buildable [DbRead 1, Advance 5] woken = Some answered \<and>
   \<not> list_ex installs [DbRead 1, Advance 5] \<and>
   cronJobs second_call = [\<lparr>cronJob = 0, taskId = 5\<rparr>] \<and>
   cronJobs woken = [] \<and> cronJobs answered = [] \<and>
   \<not> running (heap woken ! 0) \<and> \<not> running (heap answered ! 0) \<and>
   step representable buildable (Fire 0) answered = None"
proof -
  have r: "registry_ok second_call"
    by (simp add: registry_ok_def second_call_def installed_def)
  have s: "step representable buildable (Wake 1) second_call = Some woken"
    by (simp add: woken_def second_call_def installed_def sleep_ms_def)
  have n: "run representable buildable [DbRead 1, Advance 5] woken = Some answered"
    by (simp add: answered_def woken_def second_call_def installed_def
        syncCronJobs_afterSleep_def find_resolves_def)
  have q: "\<not> list_ex installs [DbRead 1, Advance 5]"
    by (simp add: installs_def)
  have c: "cronJobs second_call = [\<lparr>cronJob = 0, taskId = 5\<rparr>]"
    by (simp add: second_call_def installed_def)
  show ?thesis
    using old_generation_stopped_registry_emptied [OF r s n] r s n q c by simp
qed

text \<open>
  Claim C2 as stated excludes a list emptied of the old jobs and not yet holding the new
  ones. After one full pass and the wake-up of a second one, the table still holds the
  stand-up task, the list is empty, the only job is stopped and the second invocation
  is waiting for its query.
\<close>

theorem registry_observed_empty_counterexample:
  "map_option snapshot
     (run representable buildable (one_pass 0 @ [Call, Advance 2000, Wake 1]) (startup [standup_task]))
   = Some ([], [False], [1], [Finished, AwaitingFind]) \<and>
   map_option cronJobs
     (run representable buildable (one_pass 0 @ [Call, Advance 2000, Wake 1]) (startup [standup_task]))
   = Some []"
  by (simp add: snapshot_def scheduled_rows_def scheduled_tasks_def scenario_defs eval_defs)


section \<open>One pass of the reconciliation (claims C1 and C5)\<close>


lemma one_pass_run:
  "run valid builds (one_pass (length (procs w))) w =
     Some (w\<lparr>now := now w + 2000,
             heap := stopAll (cronJobs w) (heap w) @
               map newJob (takeWhile (\<lambda>t. valid (cronTabString t)) (tasks w)),
             cronJobs := map newEntry (enumerate (length (heap w))
               (takeWhile (\<lambda>t. valid (cronTabString t)) (tasks w))),
             procs := procs w @
               [\<lparr>pc = (if list_all (\<lambda>t. valid (cronTabString t)) (tasks w)
                       then Finished else Rejected InvalidCronTime),
                 calledAt = now w, readAt = Some (now w + 2000),
                 activeRecurringMessageTask = tasks w\<rparr>],
             rejections := (if list_all (\<lambda>t. valid (cronTabString t)) (tasks w)
                            then rejections w else rejections w @ [InvalidCronTime])\<rparr>)"
  by (simp add: one_pass_def syncCronJobs_call_def syncCronJobs_afterSleep_def find_resolves_def
      syncCronJobs_afterFind_def scheduleAll_closed sleep_ms_def stopAll_length)

lemma entries_point_to_jobs:
  "map (\<lambda>j. (h @ map newJob ts) ! cronJob j) (map newEntry (enumerate (length h) ts)) = map newJob ts"
  by (rule nth_equalityI) (simp_all add: nth_enumerate_eq newEntry_def)

lemma entries_point_to_tasks:
  "map (\<lambda>j. task ((h @ map newJob ts) ! cronJob j)) (map newEntry (enumerate (length h) ts)) = ts"
  by (rule nth_equalityI) (simp_all add: nth_enumerate_eq newEntry_def newJob_def)

lemma one_pass_alone:
  assumes "list_all (\<lambda>t. valid (cronTabString t)) (tasks w)" and "registry_ok w"
  shows "\<exists>w'. run valid builds (one_pass (length (procs w))) w = Some w' \<and>
           map (\<lambda>j. heap w' ! cronJob j) (cronJobs w') = map newJob (tasks w) \<and>
           (\<forall>j \<in> set (cronJobs w). \<not> running (heap w' ! cronJob j))"
proof -
  have t: "takeWhile (\<lambda>t. valid (cronTabString t)) (tasks w) = tasks w"
    using assms(1) by (simp add: list_all_iff)
  have "\<not> running ((stopAll (cronJobs w) (heap w) @ map newJob (tasks w)) ! cronJob j)"
    if "j \<in> set (cronJobs w)" for j
  proof -
    have b: "cronJob j < length (heap w)" using assms(2) that by (simp add: registry_ok_def)
    then show ?thesis using stopAll_stops [OF that b] by (simp add: nth_append stopAll_length)
  qed
  then show ?thesis
    using entries_point_to_jobs [of "stopAll (cronJobs w) (heap w)" "tasks w"]
    by (simp add: one_pass_run t stopAll_length)
qed

text \<open>
  Claim C1 says that after a call completes the list holds exactly one job per
  persisted definition. Two passes that overlap break this. The panel saves two tasks
  one after the other; each save runs the hook and so starts a pass. Both passes wake
  up and empty the list before either query has returned; then each loop pushes a job
  for every task. When both have completed the table holds tasks 1 and 3, and the list
  holds four running jobs, two for each task.
\<close>

theorem overlapping_passes_duplicate_jobs:
  "map_option snapshot (run representable buildable two_saves (startup []))
   = Some ([1, 3, 1, 3], [True, True, True, True], [1, 3], [Finished, Finished])"
  by (simp add: snapshot_def scheduled_rows_def scheduled_tasks_def two_saves_def
      scenario_defs eval_defs)

text \<open>
  Claim C5, as the code has it. The loop has no handler for a pattern that
  \<^verbatim>\<open>CronJob.from\<close> refuses. When exactly such a definition is met in the fetched
  list, the pass ends there: after an uninterrupted pass the list holds the jobs of
  the definitions fetched before the malformed one and nothing else, the invocation
  is rejected with the parser's error, and the error is left unhandled.
\<close>

theorem malformed_definition_aborts_pass:
  assumes "tasks w = pre @ bad # post"
    and "\<forall>t \<in> set pre. valid (cronTabString t)"
    and "\<not> valid (cronTabString bad)"
  shows "map_option
           (\<lambda>w'. (scheduled_tasks w', pc (procs w' ! length (procs w)), rejections w'))
           (run valid builds (one_pass (length (procs w))) w)
         = Some (pre, Rejected InvalidCronTime, rejections w @ [InvalidCronTime])"
proof -
  have t: "takeWhile (\<lambda>t. valid (cronTabString t)) (tasks w) = pre"
    using assms by (simp add: takeWhile_append)
  have a: "\<not> list_all (\<lambda>t. valid (cronTabString t)) (tasks w)"
    using assms by simp
  have "map (\<lambda>j. task ((stopAll (cronJobs w) (heap w) @ map newJob pre) ! cronJob j))
          (map newEntry (enumerate (length (heap w)) pre)) = pre"
    using entries_point_to_tasks [of "stopAll (cronJobs w) (heap w)" pre]
    by (simp add: stopAll_length)
  then show ?thesis
    by (simp add: one_pass_run t a scheduled_tasks_def)
qed

theorem malformed_definition_aborts_pass_witness:
  "map_option (\<lambda>w'. (scheduled_tasks w', pc (procs w' ! 0), rejections w'))
     (run representable buildable (one_pass 0) (startup [standup_task, malformed_task, retro_task]))
   = Some ([standup_task], Rejected InvalidCronTime, [InvalidCronTime])"
proof -
  have a: "tasks (startup [standup_task, malformed_task, retro_task])
      = [standup_task] @ malformed_task # [retro_task]"
    by (simp add: startup_def)
  have b: "\<forall>t \<in> set [standup_task]. representable (cronTabString t)"
    by (simp add: scenario_defs eval_defs)
  have c: "\<not> representable (cronTabString malformed_task)"
    by (simp add: scenario_defs eval_defs)
  have d: "length (procs (startup [standup_task, malformed_task, retro_task])) = 0"
    "rejections (startup [standup_task, malformed_task, retro_task]) = []"
    by (simp_all add: startup_def)
  show ?thesis
    using malformed_definition_aborts_pass [OF a b c] unfolding d by simp
qed

text \<open>
  Claim C5 as stated has every other definition installed. With the stand-up task, a
  task whose hour is 99 and the Friday task fetched in this order, the pass leaves a
  single job, for task 1: task 3, whose pattern parses, gets none.
\<close>

theorem malformed_definition_counterexample:
  "map_option scheduled_rows
     (run representable buildable (one_pass 0) (startup [standup_task, malformed_task, retro_task]))
   = Some [1] \<and>
   representable (cronTabString standup_task) \<and> \<not> representable (cronTabString malformed_task) \<and>
   representable (cronTabString retro_task) \<and> taskRowId retro_task = 3"
  by (simp add: scheduled_rows_def scheduled_tasks_def scenario_defs eval_defs)


section \<open>The settle delay (claim C9)\<close>














section \<open>Guild reconciliation (claims C10 and C7)\<close>

lemma commit_insert_cases:
  "commit (InsertServer sid x) st = st \<or>
   (\<exists>n. x = Some n \<and> sid \<notin> set (map serverId (servers st)) \<and>
        commit (InsertServer sid x) st = st\<lparr>servers := servers st @ [\<lparr>serverId = sid, name = n\<rparr>]\<rparr>)"
  by (cases x) auto

lemma inserts_keep_rows:
  "take (length (servers st)) (servers (fold commit (map (\<lambda>id. InsertServer id (f id)) ids) st))
     = servers st \<and>
   keywordRows (fold commit (map (\<lambda>id. InsertServer id (f id)) ids) st) = keywordRows st \<and>
   whitelistedEmojis (fold commit (map (\<lambda>id. InsertServer id (f id)) ids) st) = whitelistedEmojis st"
proof (induction ids arbitrary: st)
  case Nil
  then show ?case by simp
next
  case (Cons a ids)
  let ?st = "commit (InsertServer a (f a)) st"
  let ?r = "fold commit (map (\<lambda>id. InsertServer id (f id)) ids) ?st"
  have ih: "take (length (servers ?st)) (servers ?r) = servers ?st"
    "keywordRows ?r = keywordRows ?st" "whitelistedEmojis ?r = whitelistedEmojis ?st"
    using Cons.IH [of ?st] by simp_all
  have k: "keywordRows ?st = keywordRows st" "whitelistedEmojis ?st = whitelistedEmojis st"
    using commit_insert_cases [of a "f a" st] by auto
  have "take (length (servers st)) (servers ?r) = servers st"
  proof -
    have le: "length (servers st) \<le> length (servers ?st)"
      and pre: "take (length (servers st)) (servers ?st) = servers st"
      using commit_insert_cases [of a "f a" st] by auto
    have "take (length (servers st)) (servers ?r)
        = take (length (servers st)) (take (length (servers ?st)) (servers ?r))"
      using le by (simp add: min_def)
    then show ?thesis using ih(1) pre by simp
  qed
  then show ?case using ih k by simp
qed

lemma inserts_ids:
  "set (map serverId (servers (fold commit (map (\<lambda>id. InsertServer id (f id)) ids) st)))
     = set (map serverId (servers st)) \<union> {g \<in> set ids. f g \<noteq> None}"
proof (induction ids arbitrary: st)
  case Nil
  then show ?case by simp
next
  case (Cons a ids)
  have "set (map serverId (servers (commit (InsertServer a (f a)) st)))
      = set (map serverId (servers st)) \<union> {g \<in> {a}. f g \<noteq> None}"
    by (cases "f a") auto
  then show ?case using Cons.IH [of "commit (InsertServer a (f a)) st"] by auto
qed

lemma map_of_cache: "g \<in> set (map fst cache) \<Longrightarrow> map_of cache g \<noteq> None"
  by (simp add: map_of_eq_None_iff)

lemma syncServers_ids:
  "set (map serverId (servers (commitAll (syncServers cache (servers st)) st)))
     = set (map serverId (servers st)) \<union> set (map fst cache)"
  unfolding commitAll_def syncServers_def inserts_ids newlyCreatedServerIds_def
  using map_of_cache [of _ cache] by auto

lemma newlyCreated_none:
  "set (map fst cache) \<subseteq> set (map serverId stored) \<Longrightarrow> newlyCreatedServerIds cache stored = []"
  by (auto simp: newlyCreatedServerIds_def filter_empty_conv)

text \<open>
  Claim C10. In the revision with the scheduler, every write that \<^verbatim>\<open>syncServers\<close>
  sends is an insert, and the inserts are exactly those of the guilds that are in the
  cache and not stored, each with the name that the cache has for the guild. Once the
  storage has taken them, every row that was stored before is still there, unchanged
  and in its place; keywords and emojis are untouched; and the stored guild ids are
  the old ones together with the cached ones, so the stored set never shrinks.
\<close>

theorem syncServers_only_inserts:
  "set (syncServers cache (servers st)) =
     {InsertServer g (map_of cache g) | g.
        g \<in> set (map fst cache) \<and> g \<notin> set (map serverId (servers st))} \<and>
   (\<forall>g \<in> set (map fst cache). map_of cache g \<noteq> None) \<and>
   take (length (servers st)) (servers (commitAll (syncServers cache (servers st)) st)) = servers st \<and>
   keywordRows (commitAll (syncServers cache (servers st)) st) = keywordRows st \<and>
   whitelistedEmojis (commitAll (syncServers cache (servers st)) st) = whitelistedEmojis st \<and>
   set (map serverId (servers (commitAll (syncServers cache (servers st)) st)))
     = set (map serverId (servers st)) \<union> set (map fst cache)"
proof -
  have "set (syncServers cache (servers st)) =
     {InsertServer g (map_of cache g) | g.
        g \<in> set (map fst cache) \<and> g \<notin> set (map serverId (servers st))}"
    by (auto simp: syncServers_def newlyCreatedServerIds_def)
  moreover have "\<forall>g \<in> set (map fst cache). map_of cache g \<noteq> None"
    by (intro ballI map_of_cache)
  ultimately show ?thesis
    using inserts_keep_rows [of st "map_of cache" "newlyCreatedServerIds cache (servers st)"]
      syncServers_ids [of cache st]
    by (simp add: commitAll_def syncServers_def)
qed

theorem syncServers_only_inserts_witness:
  "take 2 (servers (commitAll (syncServers guild_cache (servers stored_example)) stored_example))
     = [\<lparr>serverId = ''A'', name = ''old alpha''\<rparr>, \<lparr>serverId = ''C'', name = ''gamma''\<rparr>] \<and>
   keywordRows (commitAll (syncServers guild_cache (servers stored_example)) stored_example)
     = keywordRows stored_example \<and>
   map_of guild_cache ''B'' \<noteq> None \<and>
   InsertServer ''B'' (map_of guild_cache ''B'') \<in> set (syncServers guild_cache (servers stored_example))"
proof -
  note inst = syncServers_only_inserts [of guild_cache stored_example]
  have a: "length (servers stored_example) = 2"
    "servers stored_example
       = [\<lparr>serverId = ''A'', name = ''old alpha''\<rparr>, \<lparr>serverId = ''C'', name = ''gamma''\<rparr>]"
    by (simp_all add: stored_example_def)
  have b: "''B'' \<in> set (map fst guild_cache)" "''B'' \<notin> set (map serverId (servers stored_example))"
    by (simp_all add: guild_cache_def stored_example_def)
  have "map_of guild_cache ''B'' \<noteq> None" using inst b(1) by blast
  moreover have "InsertServer ''B'' (map_of guild_cache ''B'')
      \<in> set (syncServers guild_cache (servers stored_example))"
    using inst b by blast
  moreover have "take 2 (servers (commitAll (syncServers guild_cache (servers stored_example))
      stored_example)) = servers stored_example"
    using inst a(1) by simp
  ultimately show ?thesis using inst a(2) by simp
qed

text \<open>
  The earlier revision, row by row: what the loop over the stored rows leaves behind,
  and that after one call every stored row is current and the stored ids are the
  cached ones.
\<close>

lemma syncServers_earlier_alt:
  "syncServers_earlier cache stored =
     concat (map (reconcile_row cache) stored) @
     map (\<lambda>id. InsertServer id (map_of cache id)) (newlyCreatedServerIds cache stored)"
  by (simp add: syncServers_earlier_def)

lemma reconcile_live:
  assumes "serverId a \<in> set (map fst cache)"
  shows "servers (fold commit (reconcile_row cache a) st)
           = map (\<lambda>r. if serverId r = serverId a
                       then r\<lparr>name := the (map_of cache (serverId a))\<rparr> else r) (servers st)"
proof -
  obtain n where "map_of cache (serverId a) = Some n"
    using map_of_cache [OF assms] by auto
  then show ?thesis using assms by (simp add: reconcile_row_def)
qed

lemma reconcile_gone:
  assumes "serverId a \<notin> set (map fst cache)"
  shows "servers (fold commit (reconcile_row cache a) st)
           = filter (\<lambda>r. serverId r \<noteq> serverId a) (servers st)"
  using assms by (simp add: reconcile_row_def)

lemma reconcile_rows_servers:
  "servers (fold commit (concat (map (reconcile_row cache) rs)) st)
     = map (relabel cache rs) (filter (keep cache rs) (servers st))"
proof (induction rs arbitrary: st)
  case Nil
  then show ?case by (simp add: relabel_def keep_def)
next
  case (Cons a rs)
  let ?st = "fold commit (reconcile_row cache a) st"
  have ih: "servers (fold commit (concat (map (reconcile_row cache) (a # rs))) st)
      = map (relabel cache rs) (filter (keep cache rs) (servers ?st))"
    using Cons.IH [of ?st] by simp
  show ?case
  proof (cases "serverId a \<in> set (map fst cache)")
    case True
    let ?upd = "\<lambda>r. if serverId r = serverId a
        then r\<lparr>name := the (map_of cache (serverId a))\<rparr> else r"
    have f: "filter (keep cache rs) (map ?upd (servers st))
        = map ?upd (filter (keep cache (a # rs)) (servers st))"
      using True unfolding filter_map
      by (intro arg_cong [where f = "map ?upd"] filter_cong) (auto simp: keep_def)
    have m: "map (relabel cache rs) (map ?upd xs) = map (relabel cache (a # rs)) xs" for xs
      by (auto simp: relabel_def)
    show ?thesis unfolding ih reconcile_live [OF True] f m ..
  next
    case False
    have f: "filter (keep cache rs) (filter (\<lambda>r. serverId r \<noteq> serverId a) (servers st))
        = filter (keep cache (a # rs)) (servers st)"
      using False unfolding filter_filter
      by (intro filter_cong) (auto simp: keep_def)
    have m: "map (relabel cache rs) (filter (keep cache (a # rs)) xs)
        = map (relabel cache (a # rs)) (filter (keep cache (a # rs)) xs)" for xs
      using False by (intro map_cong) (auto simp: relabel_def keep_def)
    show ?thesis unfolding ih reconcile_gone [OF False] f m ..
  qed
qed

lemma after_deletes_and_updates:
  assumes "r \<in> set (servers (fold commit (concat (map (reconcile_row cache) (servers st))) st))"
  shows "current cache r"
proof -
  obtain r0 where r0: "r0 \<in> set (servers st)" "keep cache (servers st) r0"
    and r: "r = relabel cache (servers st) r0"
    using assms unfolding reconcile_rows_servers by auto
  have "serverId r0 \<in> set (map fst cache)" using r0 by (auto simp: keep_def)
  then obtain n where "map_of cache (serverId r0) = Some n"
    using map_of_cache [of "serverId r0" cache] by auto
  then show ?thesis using r0(1) by (simp add: r relabel_def current_def)
qed

lemma after_deletes_and_updates_ids:
  "set (map serverId (servers (fold commit (concat (map (reconcile_row cache) (servers st))) st)))
     = set (map serverId (servers st)) \<inter> set (map fst cache)"
  unfolding reconcile_rows_servers by (auto simp: keep_def relabel_def)

lemma inserts_current:
  "\<forall>r \<in> set (servers st). current cache r \<Longrightarrow>
   \<forall>r \<in> set (servers (fold commit (map (\<lambda>id. InsertServer id (map_of cache id)) ids) st)).
      current cache r"
proof (induction ids arbitrary: st)
  case Nil
  then show ?case by simp
next
  case (Cons a ids)
  have "\<forall>r \<in> set (servers (commit (InsertServer a (map_of cache a)) st)). current cache r"
    using Cons.prems by (cases "map_of cache a") (auto simp: current_def)
  then show ?case using Cons.IH by simp
qed

lemma earlier_first_call:
  defines "st' \<equiv> \<lambda>cache st. commitAll (syncServers_earlier cache (servers st)) st"
  shows "\<forall>r \<in> set (servers (st' cache st)). current cache r"
    and "set (map serverId (servers (st' cache st))) = set (map fst cache)"
proof -
  let ?mid = "fold commit (concat (map (reconcile_row cache) (servers st))) st"
  have s: "st' cache st = fold commit
      (map (\<lambda>id. InsertServer id (map_of cache id)) (newlyCreatedServerIds cache (servers st))) ?mid"
    by (simp add: st'_def commitAll_def syncServers_earlier_alt)
  have "\<forall>r \<in> set (servers ?mid). current cache r"
    using after_deletes_and_updates by blast
  then show "\<forall>r \<in> set (servers (st' cache st)). current cache r"
    unfolding s by (rule inserts_current)
  show "set (map serverId (servers (st' cache st))) = set (map fst cache)"
    unfolding s inserts_ids after_deletes_and_updates_ids newlyCreatedServerIds_def
    using map_of_cache [of _ cache] by auto
qed

lemma updates_change_nothing:
  "\<forall>r \<in> set (servers st). current cache r \<Longrightarrow> \<forall>r \<in> set rs. current cache r \<Longrightarrow>
   fold commit (map (\<lambda>r. UpdateServer (serverId r) (Some (name r))) rs) st = st"
proof (induction rs arbitrary: st)
  case Nil
  then show ?case by simp
next
  case (Cons a rs)
  have "map (\<lambda>r. if serverId r = serverId a then r\<lparr>name := name a\<rparr> else r) (servers st) = servers st"
    using Cons.prems by (intro map_idI) (auto simp: current_def)
  then have "commit (UpdateServer (serverId a) (Some (name a))) st = st" by simp
  then show ?case using Cons by simp
qed

lemma earlier_all_live:
  assumes "\<forall>r \<in> set stored. current cache r" and "set (map serverId stored) = set (map fst cache)"
  shows "syncServers_earlier cache stored
           = map (\<lambda>r. UpdateServer (serverId r) (Some (name r))) stored"
proof -
  have "newlyCreatedServerIds cache stored = []"
    using assms(2) by (intro newlyCreated_none) simp
  moreover have "concat (map (reconcile_row cache) rs)
      = map (\<lambda>r. UpdateServer (serverId r) (Some (name r))) rs"
    if "\<forall>r \<in> set rs. current cache r" and "set (map serverId rs) \<subseteq> set (map fst cache)" for rs
    using that by (induction rs) (auto simp: reconcile_row_def current_def)
  ultimately show ?thesis using assms by (simp add: syncServers_earlier_alt)
qed

lemma scheduler_keeps_tables:
  assumes "e \<in> {Call, Wake i, DbRead i, Resume i}" and "step valid builds e w = Some w'"
  shows "tasks w' = tasks w \<and> messages w' = messages w"
  using assms
  by (auto simp: syncCronJobs_call_def syncCronJobs_afterSleep_def find_resolves_def
      syncCronJobs_afterFind_frame split: if_splits)

text \<open>
  Claim C7, as the code has it. Let the storage take the writes of a first call, and
  call again with the same guild cache. In the revision with the scheduler the second
  call sends no write at all. In the earlier revision the second call sends no insert
  and no delete, but one name update for every stored row, each with the name the row
  already has; the storage is the same afterwards. The call of \<^verbatim>\<open>syncCronJobs\<close>
  that ends \<^verbatim>\<open>syncServers\<close> writes nothing either: none of its segments changes
  the task or the message table.
\<close>

theorem syncServers_second_call:
  "syncServers cache (servers (commitAll (syncServers cache (servers st)) st)) = [] \<and>
   (st' = commitAll (syncServers_earlier cache (servers st)) st \<longrightarrow>
      syncServers_earlier cache (servers st')
        = map (\<lambda>r. UpdateServer (serverId r) (Some (name r))) (servers st') \<and>
      commitAll (syncServers_earlier cache (servers st')) st' = st') \<and>
   (e \<in> {Call, Wake i, DbRead i, Resume i} \<and> step valid builds e w = Some w' \<longrightarrow>
      tasks w' = tasks w \<and> messages w' = messages w)"
proof (intro conjI impI)
  assume "e \<in> {Call, Wake i, DbRead i, Resume i} \<and> step valid builds e w = Some w'"
  then show "tasks w' = tasks w" and "messages w' = messages w"
    using scheduler_keeps_tables [of e i valid builds w w'] by simp_all
next
  show "syncServers cache (servers (commitAll (syncServers cache (servers st)) st)) = []"
    using syncServers_ids [of cache st] by (simp add: syncServers_def newlyCreated_none)
next
  assume e: "st' = commitAll (syncServers_earlier cache (servers st)) st"
  have c: "\<forall>r \<in> set (servers st'). current cache r"
    and i: "set (map serverId (servers st')) = set (map fst cache)"
    unfolding e using earlier_first_call [of cache st] by simp_all
  show w: "syncServers_earlier cache (servers st')
      = map (\<lambda>r. UpdateServer (serverId r) (Some (name r))) (servers st')"
    using earlier_all_live [OF c i] .
  show "commitAll (syncServers_earlier cache (servers st')) st' = st'"
    unfolding w commitAll_def using updates_change_nothing [OF c c] .
qed

theorem syncServers_second_call_witness:
  "syncServers guild_cache
     (servers (commitAll (syncServers guild_cache (servers stored_example)) stored_example)) = [] \<and>
   syncServers_earlier guild_cache
     (servers (commitAll (syncServers_earlier guild_cache (servers stored_example)) stored_example))
   = [UpdateServer ''A'' (Some ''alpha''), UpdateServer ''B'' (Some ''beta'')] \<and>
   tasks (syncCronJobs_call installed) = tasks installed"
proof -
  let ?st' = "commitAll (syncServers_earlier guild_cache (servers stored_example)) stored_example"
  note inst = syncServers_second_call [of guild_cache stored_example ?st' Call 0 representable
      buildable installed "syncCronJobs_call installed"]
  have "servers ?st' = [\<lparr>serverId = ''A'', name = ''alpha''\<rparr>, \<lparr>serverId = ''B'', name = ''beta''\<rparr>]"
    by (simp add: commitAll_def syncServers_earlier_def reconcile_row_def
        newlyCreatedServerIds_def guild_cache_def stored_example_def)
  then have "map (\<lambda>r. UpdateServer (serverId r) (Some (name r))) (servers ?st')
      = [UpdateServer ''A'' (Some ''alpha''), UpdateServer ''B'' (Some ''beta'')]"
    by simp
  then show ?thesis using inst by simp
qed

text \<open>
  Claim C7 as stated, for the earlier revision: with two guilds cached, the second call
  sends two updates.
\<close>

theorem syncServers_earlier_writes_again_counterexample:
  "syncServers_earlier guild_cache
     (servers (commitAll (syncServers_earlier guild_cache (servers stored_example)) stored_example))
   = [UpdateServer ''A'' (Some ''alpha''), UpdateServer ''B'' (Some ''beta'')] \<and>
   syncServers_earlier guild_cache
     (servers (commitAll (syncServers_earlier guild_cache (servers stored_example)) stored_example))
   \<noteq> []"
  by (simp add: commitAll_def syncServers_earlier_def reconcile_row_def
      newlyCreatedServerIds_def guild_cache_def stored_example_def)

end
